theory Spec2Isabelle
  imports Main "HOL-Library.AList" "HOL-Library.Multiset" "HOL-Library.Sublist"
begin

section \<open>JavaScript values used by the sources\<close>

text \<open>
  A JavaScript string is modelled as a \<^typ>\<open>string\<close>. The sources only compare
  strings, concatenate them, split them at commas and look for ASCII letters, so the
  encoding of characters beyond ASCII plays no part.

  \<open>js_split sep s\<close> is \<^verbatim>\<open>s.split(sep)\<close> for a one-character separator: the
  result is never empty, \<^verbatim>\<open>"".split(",")\<close> is \<^verbatim>\<open>[""]\<close>.
\<close>

fun js_split :: "char \<Rightarrow> string \<Rightarrow> string list" where
  "js_split sep [] = [[]]"
| "js_split sep (c # cs) =
     (if c = sep then [] # js_split sep cs
      else (case js_split sep cs of
              [] \<Rightarrow> [[c]]
            | t # ts \<Rightarrow> (c # t) # ts))"

text \<open>The character class \<^verbatim>\<open>[a-zA-Z]\<close>.\<close>

definition isLetter :: "char \<Rightarrow> bool" where
  "isLetter c =
     (let n = (of_char c :: nat)
      in (65 \<le> n \<and> n \<le> 90) \<or> (97 \<le> n \<and> n \<le> 122))"

text \<open>
  \<open>match_letters s\<close> is \<^verbatim>\<open>s.match(/[a-zA-Z]+/)\<close>, reduced to its element 0:
  the regular expression has no global flag, so the match is the leftmost one, and
  \<^verbatim>\<open>+\<close> is greedy. \<open>None\<close> is JavaScript's \<^verbatim>\<open>null\<close>.
\<close>

fun match_letters :: "string \<Rightarrow> string option" where
  "match_letters [] = None"
| "match_letters (c # cs) =
     (if isLetter c then Some (c # takeWhile isLetter cs) else match_letters cs)"

text \<open>\<^verbatim>\<open>s.startsWith(p)\<close>.\<close>

definition startsWith :: "string \<Rightarrow> string \<Rightarrow> bool" where
  "startsWith s p = prefix p s"

text \<open>
  A JavaScript \<^verbatim>\<open>Set\<close> of strings keeps its elements in insertion order and
  ignores a second insertion: a list without repetitions, extended at the end.
\<close>

definition set_add :: "string \<Rightarrow> string list \<Rightarrow> string list" where
  "set_add x xs = (if x \<in> set xs then xs else xs @ [x])"

definition set_of_array :: "string list \<Rightarrow> string list" where
  "set_of_array xs = foldl (\<lambda>acc x. set_add x acc) [] xs"

text \<open>
  \<^verbatim>\<open>Array.prototype.sort(cmp)\<close> is stable; it is modelled by insertion from the
  left, where an element moves in front of the first element it compares less than.
\<close>

fun insert_by :: "('a \<Rightarrow> 'a \<Rightarrow> int) \<Rightarrow> 'a \<Rightarrow> 'a list \<Rightarrow> 'a list" where
  "insert_by cmp x [] = [x]"
| "insert_by cmp x (y # ys) =
     (if cmp x y < 0 then x # y # ys else y # insert_by cmp x ys)"

definition js_sort :: "('a \<Rightarrow> 'a \<Rightarrow> int) \<Rightarrow> 'a list \<Rightarrow> 'a list" where
  "js_sort cmp xs = foldl (\<lambda>acc x. insert_by cmp x acc) [] xs"

text \<open>
  Every fatal condition of the sources throws a \<^verbatim>\<open>ConfigurationError\<close> with a
  message; \<open>HostError\<close> stands for an exception that an imported helper throws.
\<close>

datatype error = ConfigurationError string | HostError string

section \<open>util/tag.ts\<close>

type_synonym Tags = "string list \<times> string list"

text \<open>
  The reducer of \<open>splitTags\<close>: the two arrays of the accumulator are extended in
  place by \<^verbatim>\<open>push\<close>.
\<close>

definition splitTags_step :: "Tags \<Rightarrow> string \<Rightarrow> Tags" where
  "splitTags_step acc tag =
     (case acc of (incl, excl) \<Rightarrow>
        (case match_letters tag of
           None \<Rightarrow> (incl, excl)
         | Some m \<Rightarrow>
             if startsWith tag ''-'' then (incl, excl @ [m]) else (incl @ [m], excl)))"

definition splitTags :: "string list \<Rightarrow> Tags" where
  "splitTags tags =
     foldl splitTags_step ([], []) (concat (map (js_split CHR '','') tags))"

definition hasTag :: "string list \<Rightarrow> string set \<Rightarrow> bool" where
  "hasTag tags jsDocTags = list_ex (\<lambda>tag. (CHR ''@'' # tag) \<in> jsDocTags) tags"

text \<open>
  \<open>shouldIgnore\<close> receives the tags of a symbol as a \<^verbatim>\<open>Set\<close>, or as an array
  after deserialisation, which it turns into a \<^verbatim>\<open>Set\<close> first.
\<close>

datatype JSDocTags = TagSet "string set" | TagArray "string list"

fun asSet :: "JSDocTags \<Rightarrow> string set" where
  "asSet (TagSet s) = s"
| "asSet (TagArray xs) = set xs"

definition shouldIgnore :: "JSDocTags \<Rightarrow> Tags \<Rightarrow> bool" where
  "shouldIgnore jsDocTags0 tags =
     (let jsDocTags = asSet jsDocTags0 in
      case tags of (includeJSDocTags, excludeJSDocTags) \<Rightarrow>
        if length includeJSDocTags > 0 \<and> \<not> hasTag includeJSDocTags jsDocTags then True
        else if length excludeJSDocTags > 0 \<and> hasTag excludeJSDocTags jsDocTags then True
        else False)"

text \<open>
  The first maximal run of ASCII letters of a token, written from the words of the
  specification, to be compared with \<open>match_letters\<close>.
\<close>

definition hasLetter :: "string \<Rightarrow> bool" where
  "hasLetter s = list_ex isLetter s"

definition firstLetterRun :: "string \<Rightarrow> string" where
  "firstLetterRun s = takeWhile isLetter (dropWhile (\<lambda>c. \<not> isLetter c) s)"

definition tokens :: "string list \<Rightarrow> string list" where
  "tokens tags = concat (map (js_split CHR '','') tags)"

section \<open>util/get-included-issue-types.ts\<close>

record CLIArguments =
  cli_include :: "string list"
  cli_exclude :: "string list"
  cli_dependencies :: bool
  cli_exports :: bool
  cli_files :: bool

text \<open>
  Every field of \<open>Options\<close> is optional; the destructuring of the second parameter
  replaces a missing one by its default. A missing second argument is the record
  with every field missing.
\<close>

record Options =
  opt_isProduction :: "bool option"
  opt_include :: "string list option"
  opt_exclude :: "string list option"

definition include_of :: "Options \<Rightarrow> string list" where
  "include_of opts = (case opt_include opts of None \<Rightarrow> [] | Some xs \<Rightarrow> xs)"

definition exclude_of :: "Options \<Rightarrow> string list" where
  "exclude_of opts = (case opt_exclude opts of None \<Rightarrow> [] | Some xs \<Rightarrow> xs)"

definition isProduction_of :: "Options \<Rightarrow> bool" where
  "isProduction_of opts = (case opt_isProduction opts of None \<Rightarrow> False | Some b \<Rightarrow> b)"

definition defaultExcludedIssueTypes :: "string list" where
  "defaultExcludedIssueTypes = [''classMembers'', ''nsExports'', ''nsTypes'']"

text \<open>
  The constant \<^verbatim>\<open>ISSUE_TYPES\<close> of constants.ts is not among the sources: it is
  the first parameter, \<open>ISSUE_TYPES\<close>, of every definition that reads it.
\<close>

definition defaultIssueTypes :: "string list \<Rightarrow> string list" where
  "defaultIssueTypes ISSUE_TYPES =
     filter (\<lambda>type. type \<notin> set defaultExcludedIssueTypes) ISSUE_TYPES"

definition normalize :: "string list \<Rightarrow> string list" where
  "normalize values = concat (map (js_split CHR '','') values)"

text \<open>The validation loop: the first unknown type throws.\<close>

fun checkIssueTypes :: "string list \<Rightarrow> string list \<Rightarrow> error + unit" where
  "checkIssueTypes ISSUE_TYPES [] = Inr ()"
| "checkIssueTypes ISSUE_TYPES (type # rest) =
     (if type \<notin> set ISSUE_TYPES
      then Inl (ConfigurationError (''Invalid issue type: '' @ type))
      else checkIssueTypes ISSUE_TYPES rest)"

text \<open>The variable \<^verbatim>\<open>incl\<close> after the three convenience flags.\<close>

definition incl_flags :: "CLIArguments \<Rightarrow> string list" where
  "incl_flags cliArgs =
     (let incl = normalize (cli_include cliArgs);
          incl = (if cli_dependencies cliArgs
                  then incl @ [''dependencies'', ''optionalPeerDependencies'', ''unlisted'',
                               ''binaries'', ''unresolved'']
                  else incl);
          incl = (if cli_exports cliArgs
                  then incl @ [''exports'', ''nsExports'', ''classMembers'', ''types'',
                               ''nsTypes'', ''enumMembers'', ''duplicates'']
                  else incl);
          incl = (if cli_files cliArgs then incl @ [''files''] else incl)
      in incl)"

text \<open>
  \<^verbatim>\<open>[...incl, ...includes]\<close> and \<^verbatim>\<open>[...excl, ...excludes]\<close>, before the
  production branch: the local options give way to the command line.
\<close>

definition include0 :: "CLIArguments \<Rightarrow> Options \<Rightarrow> string list" where
  "include0 cliArgs opts =
     (let excl = normalize (cli_exclude cliArgs);
          includes = filter (\<lambda>i. i \<notin> set excl) (include_of opts)
      in incl_flags cliArgs @ includes)"

definition exclude0 :: "CLIArguments \<Rightarrow> Options \<Rightarrow> string list" where
  "exclude0 cliArgs opts =
     (let incl = normalize (cli_include cliArgs);
          excl = normalize (cli_exclude cliArgs);
          excludes = filter (\<lambda>e. e \<notin> set incl) (exclude_of opts)
      in excl @ excludes)"

text \<open>\<^verbatim>\<open>_include\<close> and \<^verbatim>\<open>_exclude\<close> after the production branch.\<close>

definition include1 :: "CLIArguments \<Rightarrow> Options \<Rightarrow> string list" where
  "include1 cliArgs opts =
     (let i0 = include0 cliArgs opts in
      if isProduction_of opts then i0
      else if ''dependencies'' \<in> set i0
           then i0 @ [''devDependencies'', ''optionalPeerDependencies'']
           else i0)"

definition exclude1 :: "CLIArguments \<Rightarrow> Options \<Rightarrow> string list" where
  "exclude1 cliArgs opts =
     (let e0 = exclude0 cliArgs opts in
      if isProduction_of opts then e0 @ [''devDependencies'']
      else if ''dependencies'' \<in> set e0
           then e0 @ [''devDependencies'', ''optionalPeerDependencies'']
           else e0)"

definition included :: "string list \<Rightarrow> CLIArguments \<Rightarrow> Options \<Rightarrow> string list" where
  "included ISSUE_TYPES cliArgs opts =
     (let i1 = include1 cliArgs opts; e1 = exclude1 cliArgs opts in
      filter (\<lambda>group. group \<notin> set e1)
        (if length i1 > 0
         then (if list_ex (\<lambda>type. type \<notin> set defaultExcludedIssueTypes) i1
               then i1
               else i1 @ defaultIssueTypes ISSUE_TYPES)
         else defaultIssueTypes ISSUE_TYPES))"

text \<open>
  The report is an object filled key by key in the order of \<^verbatim>\<open>ISSUE_TYPES\<close>: an
  association list, where assigning to a key that is present keeps its place.
\<close>

type_synonym Report = "(string \<times> bool) list"

definition getIncludedIssueTypes ::
  "string list \<Rightarrow> CLIArguments \<Rightarrow> Options \<Rightarrow> error + Report" where
  "getIncludedIssueTypes ISSUE_TYPES cliArgs opts =
     (let incl = normalize (cli_include cliArgs);
          excl = normalize (cli_exclude cliArgs)
      in case checkIssueTypes ISSUE_TYPES (incl @ excl @ include_of opts @ exclude_of opts) of
           Inl e \<Rightarrow> Inl e
         | Inr _ \<Rightarrow>
             Inr (foldl (\<lambda>types group.
                          AList.update group (group \<in> set (included ISSUE_TYPES cliArgs opts)) types)
                    [] ISSUE_TYPES))"

text \<open>
  The fourteen issue types that get-included-issue-types.ts itself names, used as
  the taxonomy where the model is run on concrete input.
\<close>

definition sample_ISSUE_TYPES :: "string list" where
  "sample_ISSUE_TYPES =
     [''files'', ''dependencies'', ''devDependencies'', ''optionalPeerDependencies'',
      ''unlisted'', ''binaries'', ''unresolved'', ''exports'', ''nsExports'', ''types'',
      ''nsTypes'', ''enumMembers'', ''classMembers'', ''duplicates'']"

section \<open>What ConfigurationChief.ts imports\<close>

datatype WorkspacesField = WorkspacesArray "string list" | WorkspacesObject "string list option"

record PackageJson =
  pj_name :: "string option"
  pj_workspaces :: "WorkspacesField option"

text \<open>The outcome of \<^verbatim>\<open>_require(filePath)\<close>: the manifest, or an exception.\<close>

datatype Required = Loaded PackageJson | ModuleNotFound | Threw error

text \<open>
  The module-level value \<^verbatim>\<open>workspaceArg\<close>, the constant
  \<^verbatim>\<open>ROOT_WORKSPACE_NAME\<close> and the helpers that ConfigurationChief.ts and
  map-workspaces.ts import from modules that are not among the sources (path, fs,
  fast-glob, picomatch, util/workspace, util/package-name, util/require) are the fields
  of one record, which every definition below takes as its first argument.
  \<open>fastGlob\<close> takes the working directory, the patterns and the ignore list.
\<close>

record Externals =
  workspaceArg :: "string option"
  ROOT_WORKSPACE_NAME :: string
  existsSync :: "string \<Rightarrow> bool"
  join :: "string \<Rightarrow> string \<Rightarrow> string"
  relative :: "string \<Rightarrow> string \<Rightarrow> string"
  byPathDepth :: "string \<Rightarrow> string \<Rightarrow> int"
  fastGlob :: "string \<Rightarrow> string list \<Rightarrow> string list \<Rightarrow> string list"
  require :: "string \<Rightarrow> Required"
  getPackageName :: "PackageJson \<Rightarrow> string \<Rightarrow> string option"
  isMatch :: "string \<Rightarrow> string list \<Rightarrow> bool"

section \<open>util/map-workspaces.ts\<close>

record Package =
  pkg_dir :: string
  pkg_name :: string
  pkg_pkgName :: "string option"
  pkg_manifest :: PackageJson

text \<open>
  A \<^verbatim>\<open>Map\<close> with string keys is an association list in insertion order;
  \<^verbatim>\<open>set\<close> on a key that is present replaces the value where it stands
  (\<^const>\<open>AList.update\<close>), and \<^verbatim>\<open>keys()\<close> is \<open>map fst\<close>.
\<close>

type_synonym PackageMap = "(string \<times> Package) list"

definition partition_by :: "'a list \<Rightarrow> ('a \<Rightarrow> bool) \<Rightarrow> 'a list \<times> 'a list" where
  "partition_by collection predicate =
     (filter predicate collection, filter (\<lambda>item. \<not> predicate item) collection)"

text \<open>
  The loop over the glob matches. A manifest that cannot be found is logged and
  skipped; any other exception leaves the function, and so does the error for a
  manifest without a package name.
\<close>

fun mapWorkspaces_loop ::
  "Externals \<Rightarrow> string \<Rightarrow> string list \<Rightarrow> PackageMap \<times> PackageMap
     \<Rightarrow> error + (PackageMap \<times> PackageMap)" where
  "mapWorkspaces_loop X cwd [] maps = Inr maps"
| "mapWorkspaces_loop X cwd (name # rest) maps =
     (case maps of (byPkgDir, byPkgName) \<Rightarrow>
        (let dir = join X cwd name;
             filePath = join X dir ''package.json''
         in case require X filePath of
              ModuleNotFound \<Rightarrow> mapWorkspaces_loop X cwd rest (byPkgDir, byPkgName)
            | Threw e \<Rightarrow> Inl e
            | Loaded manifest \<Rightarrow>
                (let pkgName = getPackageName X manifest dir;
                     pkg = \<lparr>pkg_dir = dir, pkg_name = name, pkg_pkgName = pkgName,
                            pkg_manifest = manifest\<rparr>;
                     byPkgDir = AList.update name pkg byPkgDir
                 in case pkgName of
                      None \<Rightarrow> Inl (ConfigurationError (''Missing package name in '' @ filePath))
                    | Some n \<Rightarrow>
                        if n = [] then Inl (ConfigurationError (''Missing package name in '' @ filePath))
                        else mapWorkspaces_loop X cwd rest (byPkgDir, AList.update n pkg byPkgName))))"

definition mapWorkspaces ::
  "Externals \<Rightarrow> string \<Rightarrow> string list \<Rightarrow> error + (PackageMap \<times> PackageMap)" where
  "mapWorkspaces X cwd workspaces =
     (case partition_by workspaces (\<lambda>p. startsWith p ''!'') of
        (negatedPatterns, patterns) \<Rightarrow>
          if length patterns = 0 \<and> length negatedPatterns = 0 then Inr ([], [])
          else mapWorkspaces_loop X cwd
                 (fastGlob X cwd patterns (''**/node_modules/**'' # negatedPatterns))
                 ([], []))"

section \<open>ConfigurationChief.ts: discovery\<close>

record Workspace =
  ws_name :: string
  ws_pkgName :: string
  ws_dir :: string
  ws_ancestors :: "string list"
  ws_manifestPath :: string

type_synonym Graph = "(string \<times> string list) list"

text \<open>
  The fields of the class that workspace discovery and scope resolution read or
  write. \<open>config_ignoreWorkspaces\<close> is \<^verbatim>\<open>this.config.ignoreWorkspaces\<close>. The
  package graph is an object from directories to \<^verbatim>\<open>Set\<close>s of directories, built
  by \<^verbatim>\<open>createPkgGraph\<close>, which is not among the sources: an association list.
  Of a \<open>Workspace\<close>, the fields \<^verbatim>\<open>config\<close> and \<^verbatim>\<open>ignoreMembers\<close> are
  left out: they come from the raw configuration through picomatch and the plug-in
  table.
\<close>

record ConfigurationChief =
  cwd :: string
  isStrict :: bool
  manifest :: "PackageJson option"
  config_ignoreWorkspaces :: "string list"
  ignoredWorkspacePatterns :: "string list"
  workspacePackages :: PackageMap
  workspacePackagesByName :: PackageMap
  availableWorkspaceNames :: "string list"
  availableWorkspacePkgNames :: "string list"
  availableWorkspaceDirs :: "string list"
  packageGraph :: "Graph option"
  includedWorkspaces :: "Workspace list"

definition getListedWorkspaces :: "ConfigurationChief \<Rightarrow> string list" where
  "getListedWorkspaces c =
     (case manifest c of
        None \<Rightarrow> []
      | Some m \<Rightarrow>
          (case pj_workspaces m of
             None \<Rightarrow> []
           | Some (WorkspacesArray ws) \<Rightarrow> ws
           | Some (WorkspacesObject packages) \<Rightarrow>
               (case packages of None \<Rightarrow> [] | Some ws \<Rightarrow> ws)))"

definition getIgnoredWorkspacePatterns :: "ConfigurationChief \<Rightarrow> string list" where
  "getIgnoredWorkspacePatterns c =
     (let ignoredWorkspaces =
            map (\<lambda>name. drop 1 name)
              (filter (\<lambda>name. startsWith name ''!'') (getListedWorkspaces c))
      in ignoredWorkspaces @ config_ignoreWorkspaces c)"

definition addRootPackage :: "Externals \<Rightarrow> ConfigurationChief \<Rightarrow> ConfigurationChief" where
  "addRootPackage X c =
     (case manifest c of
        None \<Rightarrow> c
      | Some m \<Rightarrow>
          (let pkgName = (case pj_name m of None \<Rightarrow> ROOT_WORKSPACE_NAME X | Some n \<Rightarrow> n);
               rootPackage = \<lparr>pkg_dir = cwd c, pkg_name = ROOT_WORKSPACE_NAME X,
                              pkg_pkgName = Some pkgName, pkg_manifest = m\<rparr>
           in c\<lparr>workspacePackages := AList.update ''.'' rootPackage (workspacePackages c),
                workspacePackagesByName :=
                  AList.update pkgName rootPackage (workspacePackagesByName c)\<rparr>))"

text \<open>
  The loop of \<open>getAvailableWorkspacePkgNames\<close>, with the \<^verbatim>\<open>Set\<close> \<open>names\<close>
  as its accumulator.
\<close>

fun getAvailableWorkspacePkgNames_loop ::
  "Externals \<Rightarrow> string list \<Rightarrow> string list \<Rightarrow> string list \<Rightarrow> error + string list" where
  "getAvailableWorkspacePkgNames_loop X ignored [] names = Inr names"
| "getAvailableWorkspacePkgNames_loop X ignored (pkgName # rest) names =
     (if pkgName \<in> set names
      then Inl (ConfigurationError (''Duplicate package name: '' @ pkgName))
      else getAvailableWorkspacePkgNames_loop X ignored rest
             (if \<not> isMatch X pkgName ignored then set_add pkgName names else names))"

definition getAvailableWorkspacePkgNames ::
  "Externals \<Rightarrow> ConfigurationChief \<Rightarrow> string list \<Rightarrow> error + string list" where
  "getAvailableWorkspacePkgNames X c pkgNames =
     getAvailableWorkspacePkgNames_loop X (ignoredWorkspacePatterns c) pkgNames []"

text \<open>
  \<open>setWorkspaces\<close> up to the package names. The \<^verbatim>\<open>Map\<close> \<open>byPkgName\<close> that
  \<open>mapWorkspaces\<close> returns is the object stored in
  \<^verbatim>\<open>this.workspacePackagesByName\<close>, so the keys handed to
  \<open>getAvailableWorkspacePkgNames\<close> are read after \<open>addRootPackage\<close> has written
  the root package into it. The additional and the available workspace names, which
  \<open>setWorkspaces\<close> computes in between from the configured workspace keys, take no
  part in the package names.
\<close>

definition setWorkspaces_discovery ::
  "Externals \<Rightarrow> ConfigurationChief \<Rightarrow> error + ConfigurationChief" where
  "setWorkspaces_discovery X c =
     (let c = c\<lparr>ignoredWorkspacePatterns := getIgnoredWorkspacePatterns c\<rparr> in
      case mapWorkspaces X (cwd c) (getListedWorkspaces c) of
        Inl e \<Rightarrow> Inl e
      | Inr (byName, byPkgName) \<Rightarrow>
          (let c = c\<lparr>workspacePackages := byName, workspacePackagesByName := byPkgName\<rparr>;
               c = addRootPackage X c
           in case getAvailableWorkspacePkgNames X c (map fst (workspacePackagesByName c)) of
                Inl e \<Rightarrow> Inl e
              | Inr names \<Rightarrow> Inr (c\<lparr>availableWorkspacePkgNames := names\<rparr>)))"

section \<open>ConfigurationChief.ts: scope resolution\<close>

text \<open>
  The reducer \<^verbatim>\<open>getAncestors(name)\<close> and its use with
  \<^verbatim>\<open>availableWorkspaceNames.reduce\<close>.
\<close>

definition getAncestors :: "Externals \<Rightarrow> string \<Rightarrow> string list \<Rightarrow> string \<Rightarrow> string list" where
  "getAncestors X name ancestors ancestorName =
     (if name = ancestorName then ancestors
      else if ancestorName = ROOT_WORKSPACE_NAME X \<or> startsWith name (ancestorName @ ''/'')
           then ancestors @ [ancestorName]
           else ancestors)"

definition ancestorsOf :: "Externals \<Rightarrow> ConfigurationChief \<Rightarrow> string \<Rightarrow> string list" where
  "ancestorsOf X c name = foldl (getAncestors X name) [] (availableWorkspaceNames c)"

text \<open>
  \<^verbatim>\<open>workspaceArg\<close> is tested for truthiness: the empty string counts as no
  selector. \<open>selector X\<close> is the selector when there is one.
\<close>

definition selector :: "Externals \<Rightarrow> string option" where
  "selector X =
     (case workspaceArg X of
        None \<Rightarrow> None
      | Some w \<Rightarrow> if w = [] then None else Some w)"

definition workspaceNames :: "Externals \<Rightarrow> ConfigurationChief \<Rightarrow> string list" where
  "workspaceNames X c =
     (case selector X of
        Some w \<Rightarrow> ancestorsOf X c w @ [w]
      | None \<Rightarrow> availableWorkspaceNames c)"

text \<open>
  The state that the closure \<open>addDependents\<close> shares with its caller: the two
  \<^verbatim>\<open>Set\<close>s \<open>seen\<close> and \<open>workspaceDirsWithDependents\<close>. The field
  \<open>entered\<close> is not in the source: it logs the argument of every call of
  \<open>addDependents\<close>, in order, and nothing reads it.
\<close>

record WalkState =
  seen :: "string list"
  workspaceDirsWithDependents :: "string list"
  entered :: "string list"

text \<open>
  For the termination of the walk: the edge targets of a graph, and the order in which
  the calls of the walk decrease.
\<close>

definition successors :: "Graph \<Rightarrow> string set" where
  "successors graph = (\<Union>e \<in> set graph. set (snd e))"

definition walk_measure ::
  "(Graph \<times> string list \<times> string \<times> WalkState) +
   (Graph \<times> string list \<times> string list \<times> WalkState) \<Rightarrow> nat \<times> nat \<times> nat" where
  "walk_measure x =
     (case x of
        Inl (graph, i, dir, st) \<Rightarrow> (card (successors graph - set (seen st) - {dir}), 1, 0)
      | Inr (graph, i, ds, st) \<Rightarrow>
          (card ((successors graph \<union> set ds) - set (seen st)), 0, length ds))"

definition walk_order ::
  "(((Graph \<times> string list \<times> string \<times> WalkState) +
     (Graph \<times> string list \<times> string list \<times> WalkState)) \<times>
    ((Graph \<times> string list \<times> string \<times> WalkState) +
     (Graph \<times> string list \<times> string list \<times> WalkState))) set" where
  "walk_order = inv_image (less_than <*lex*> less_than <*lex*> less_than) walk_measure"

text \<open>
  \<open>addDependents\<close>, and its \<^verbatim>\<open>for (const dir of dirs)\<close> loop as \<open>forDirs\<close>.
  \<^verbatim>\<open>graph[dir]\<close> is \<open>map_of graph dir\<close>.
\<close>

function (domintros)
  addDependents :: "Graph \<Rightarrow> string list \<Rightarrow> string \<Rightarrow> WalkState \<Rightarrow> WalkState" and
  forDirs :: "Graph \<Rightarrow> string list \<Rightarrow> string list \<Rightarrow> WalkState \<Rightarrow> WalkState"
where
  "addDependents graph initialWorkspaces dir st =
     (let st1 = st\<lparr>seen := set_add dir (seen st), entered := entered st @ [dir]\<rparr> in
      case map_of graph dir of
        None \<Rightarrow> st1
      | Some dirs \<Rightarrow>
          if length dirs = 0 then st1
          else forDirs graph initialWorkspaces dirs
                 (if list_ex (\<lambda>d. d \<in> set dirs) initialWorkspaces
                  then st1\<lparr>workspaceDirsWithDependents :=
                             set_add dir (workspaceDirsWithDependents st1)\<rparr>
                  else st1))"
| "forDirs graph initialWorkspaces [] st = st"
| "forDirs graph initialWorkspaces (d # ds) st =
     forDirs graph initialWorkspaces ds
       (if d \<notin> set (seen st) then addDependents graph initialWorkspaces d st else st)"
  by pat_completeness auto

text \<open>
  Termination. The walk is nested recursion through the shared state, so that
  \<open>seen\<close> only grows is proved first, for the calls that return. The measure is
  the number of directories that are edge targets or still to be looped over and not
  yet seen; then a call of \<open>addDependents\<close> before its loop; then the length of the
  loop's rest.
\<close>

lemma set_set_add: "set (set_add x xs) = insert x (set xs)"
  by (auto simp: set_add_def)

lemma seen_grows_partial:
  "addDependents_forDirs_dom (Inl (graph, initialWorkspaces, dir, st)) \<Longrightarrow>
     set (seen st) \<subseteq> set (seen (addDependents graph initialWorkspaces dir st))"
  "addDependents_forDirs_dom (Inr (graph, initialWorkspaces, ds, st)) \<Longrightarrow>
     set (seen st) \<subseteq> set (seen (forDirs graph initialWorkspaces ds st))"
proof (induct graph initialWorkspaces dir st and graph initialWorkspaces ds st
       rule: addDependents_forDirs.pinduct)
  case (1 graph initialWorkspaces dir st)
  let ?st1 = "st\<lparr>seen := set_add dir (seen st), entered := entered st @ [dir]\<rparr>"
  show ?case
  proof (cases "map_of graph dir")
    case None
    then show ?thesis
      by (simp add: addDependents.psimps[OF "1.hyps"(1)] set_set_add subset_insertI)
  next
    case (Some dirs)
    show ?thesis
    proof (cases "length dirs = 0")
      case True
      then show ?thesis
        using Some by (simp add: addDependents.psimps[OF "1.hyps"(1)] set_set_add subset_insertI)
    next
      case False
      let ?st2 = "if list_ex (\<lambda>d. d \<in> set dirs) initialWorkspaces
                  then ?st1\<lparr>workspaceDirsWithDependents :=
                             set_add dir (workspaceDirsWithDependents ?st1)\<rparr>
                  else ?st1"
      have "set (seen ?st2) \<subseteq> set (seen (forDirs graph initialWorkspaces dirs ?st2))"
        using "1.hyps"(2)[OF refl Some False] .
      moreover have "set (seen st) \<subseteq> set (seen ?st2)"
        by (simp add: set_set_add subset_insertI)
      moreover have "addDependents graph initialWorkspaces dir st
                       = forDirs graph initialWorkspaces dirs ?st2"
        using Some False by (simp add: addDependents.psimps[OF "1.hyps"(1)] Let_def)
      ultimately show ?thesis by simp
    qed
  qed
next
  case (2 graph initialWorkspaces st)
  then show ?case by (simp add: forDirs.psimps)
next
  case (3 graph initialWorkspaces d ds st)
  show ?case
  proof (cases "d \<notin> set (seen st)")
    case True
    have "set (seen st) \<subseteq> set (seen (addDependents graph initialWorkspaces d st))"
      using "3.hyps"(2)[OF True] .
    moreover have "set (seen (addDependents graph initialWorkspaces d st))
        \<subseteq> set (seen (forDirs graph initialWorkspaces ds
                          (addDependents graph initialWorkspaces d st)))"
      using "3.hyps"(3) True by simp
    ultimately show ?thesis
      using True by (simp add: forDirs.psimps(2)[OF "3.hyps"(1)])
  next
    case False
    then show ?thesis
      using "3.hyps"(3) by (simp add: forDirs.psimps(2)[OF "3.hyps"(1)])
  qed
qed

lemma finite_successors: "finite (successors graph)"
  by (simp add: successors_def)

lemma map_of_successors: "map_of graph dir = Some dirs \<Longrightarrow> set dirs \<subseteq> successors graph"
  by (force simp: successors_def dest: map_of_SomeD)

lemma card_enter:
  "set dirs \<subseteq> S \<Longrightarrow> card ((S \<union> set dirs) - insert dir A) = card (S - A - {dir})"
  by (rule arg_cong[where f = card]) auto

lemma card_descend:
  "finite S \<Longrightarrow> d \<notin> A \<Longrightarrow> card (S - A - {d}) < card (insert d (S \<union> set ds) - A)"
  by (rule psubset_card_mono) auto

lemma card_next:
  "finite S \<Longrightarrow> A \<subseteq> B \<Longrightarrow> card ((S \<union> set ds) - B) \<le> card (insert d (S \<union> set ds) - A)"
  by (rule card_mono) auto

lemma wf_walk_order: "wf walk_order"
  unfolding walk_order_def by (intro wf_inv_image wf_lex_prod wf_less_than)

lemma walk_order_enter:
  assumes g: "map_of graph dir = Some dirs"
    and s: "set (seen st2) = insert dir (set (seen st))"
  shows "(Inr (graph, iw, dirs, st2), Inl (graph, iw, dir, st)) \<in> walk_order"
proof -
  have "card ((successors graph \<union> set dirs) - set (seen st2))
          = card (successors graph - set (seen st) - {dir})"
    using card_enter[OF map_of_successors[OF g]] s by simp
  then show ?thesis by (simp add: walk_order_def walk_measure_def)
qed

lemma walk_order_descend:
  "d \<notin> set (seen st) \<Longrightarrow> (Inl (graph, iw, d, st), Inr (graph, iw, d # ds, st)) \<in> walk_order"
  using card_descend[OF finite_successors, of d "set (seen st)" graph ds]
  by (simp add: walk_order_def walk_measure_def)

lemma walk_order_next:
  assumes "set (seen st) \<subseteq> set (seen st')"
  shows "(Inr (graph, iw, ds, st'), Inr (graph, iw, d # ds, st)) \<in> walk_order"
proof -
  have "card ((successors graph \<union> set ds) - set (seen st'))
          \<le> card (insert d (successors graph \<union> set ds) - set (seen st))"
    using assms by (rule card_next[OF finite_successors])
  then show ?thesis by (auto simp: walk_order_def walk_measure_def)
qed

lemma addDependents_forDirs_total: "addDependents_forDirs_dom x"
proof (induct x rule: wf_induct_rule[OF wf_walk_order])
  case (1 x)
  show ?case
  proof (cases x)
    case (Inl a)
    obtain graph iw dir st where a: "a = (graph, iw, dir, st)" by (cases a)
    show ?thesis
      unfolding Inl a
      by (rule addDependents_forDirs.domintros(1); rule "1"[unfolded Inl a];
          rule walk_order_enter; simp add: set_set_add)
  next
    case (Inr b)
    obtain graph iw ds st where b: "b = (graph, iw, ds, st)" by (cases b)
    show ?thesis
    proof (cases ds)
      case Nil
      show ?thesis unfolding Inr b Nil by (rule addDependents_forDirs.domintros(2))
    next
      case (Cons d ds')
      have inner: "d \<notin> set (seen st) \<Longrightarrow> addDependents_forDirs_dom (Inl (graph, iw, d, st))"
        by (rule "1"[unfolded Inr b Cons], rule walk_order_descend)
      have "set (seen st) \<subseteq> set (seen (if d \<notin> set (seen st) then addDependents graph iw d st else st))"
        using inner seen_grows_partial(1) by simp
      then have outer: "addDependents_forDirs_dom
          (Inr (graph, iw, ds', if d \<notin> set (seen st) then addDependents graph iw d st else st))"
        by (intro "1"[unfolded Inr b Cons] walk_order_next)
      show ?thesis
        unfolding Inr b Cons
      proof (rule addDependents_forDirs.domintros(3))
        assume "d \<notin> set (seen st)"
        then show "addDependents_forDirs_dom (Inl (graph, iw, d, st))" by (rule inner)
      next
        assume "d \<notin> set (seen st)"
        then show "addDependents_forDirs_dom (Inr (graph, iw, ds', addDependents graph iw d st))"
          using outer by simp
      next
        assume "d \<in> set (seen st)"
        then show "addDependents_forDirs_dom (Inr (graph, iw, ds', st))"
          using outer by simp
      qed
    qed
  qed
qed

termination addDependents
  by (rule allI, rule addDependents_forDirs_total)

declare addDependents.simps [simp del]

text \<open>
  \<^verbatim>\<open>this.availableWorkspaceDirs.forEach(addDependents)\<close>, from an empty \<open>seen\<close>
  and from \<^verbatim>\<open>new Set(initialWorkspaces)\<close>.
\<close>

definition walkDependents :: "Graph \<Rightarrow> string list \<Rightarrow> string list \<Rightarrow> WalkState" where
  "walkDependents graph initialWorkspaces dirs =
     foldl (\<lambda>st dir. addDependents graph initialWorkspaces dir st)
       \<lparr>seen = [], workspaceDirsWithDependents = set_of_array initialWorkspaces, entered = []\<rparr>
       dirs"

text \<open>\<^verbatim>\<open>relative(this.cwd, dir) || ROOT_WORKSPACE_NAME\<close>.\<close>

definition nameOfDir :: "Externals \<Rightarrow> ConfigurationChief \<Rightarrow> string \<Rightarrow> string" where
  "nameOfDir X c dir =
     (let r = relative X (cwd c) dir in if r = [] then ROOT_WORKSPACE_NAME X else r)"

text \<open>The \<^verbatim>\<open>Set\<close> \<open>ws\<close> when the three branches are through.\<close>

definition includedNames :: "Externals \<Rightarrow> ConfigurationChief \<Rightarrow> string list" where
  "includedNames X c =
     (case selector X of
        Some w \<Rightarrow>
          if isStrict c then set_add w []
          else (case packageGraph c of
                  None \<Rightarrow> []
                | Some graph \<Rightarrow>
                    (let initialWorkspaces = map (join X (cwd c)) (workspaceNames X c);
                         st = walkDependents graph initialWorkspaces (availableWorkspaceDirs c)
                     in foldl (\<lambda>ws dir. set_add (nameOfDir X c dir) ws) []
                          (workspaceDirsWithDependents st)))
      | None \<Rightarrow> foldl (\<lambda>ws name. set_add name ws) [] (workspaceNames X c))"

definition toWorkspace :: "Externals \<Rightarrow> ConfigurationChief \<Rightarrow> string \<Rightarrow> Workspace" where
  "toWorkspace X c name =
     (let dir = join X (cwd c) name;
          pkgName = (case map_of (workspacePackages c) name of
                       None \<Rightarrow> ''NOT_FOUND_'' @ name
                     | Some p \<Rightarrow>
                         (case pkg_pkgName p of
                            None \<Rightarrow> ''NOT_FOUND_'' @ name
                          | Some n \<Rightarrow> n))
      in \<lparr>ws_name = name, ws_pkgName = pkgName, ws_dir = dir,
          ws_ancestors = ancestorsOf X c name,
          ws_manifestPath = join X dir ''package.json''\<rparr>)"

definition determineIncludedWorkspaces ::
  "Externals \<Rightarrow> ConfigurationChief \<Rightarrow> error + Workspace list" where
  "determineIncludedWorkspaces X c =
     (if (case selector X of Some w \<Rightarrow> \<not> existsSync X w | None \<Rightarrow> False)
      then Inl (ConfigurationError
                  (''Directory does not exist: '' @ (case selector X of Some w \<Rightarrow> w | None \<Rightarrow> [])))
      else Inr (map (toWorkspace X c) (js_sort (byPathDepth X) (includedNames X c))))"

text \<open>
  The last statement of \<open>setWorkspaces\<close> stores the result, and
  \<open>getIncludedWorkspaces\<close> reads it.
\<close>

definition setWorkspaces_scope ::
  "Externals \<Rightarrow> ConfigurationChief \<Rightarrow> error + ConfigurationChief" where
  "setWorkspaces_scope X c =
     (case determineIncludedWorkspaces X c of
        Inl e \<Rightarrow> Inl e
      | Inr ws \<Rightarrow> Inr (c\<lparr>includedWorkspaces := ws\<rparr>))"

definition getIncludedWorkspaces :: "ConfigurationChief \<Rightarrow> Workspace list" where
  "getIncludedWorkspaces c = includedWorkspaces c"

section \<open>A small monorepo to run the definitions on\<close>

text \<open>
  The repository \<^verbatim>\<open>/r\<close> with the workspaces \<^verbatim>\<open>packages/a\<close> and
  \<^verbatim>\<open>packages/b\<close>, where b depends on a, and simple stand-ins for the imported
  helpers on the paths of this repository: enough to evaluate the definitions above on
  concrete input.
\<close>

definition sample_join :: "string \<Rightarrow> string \<Rightarrow> string" where
  "sample_join a b = (if b = ''.'' then a else a @ ''/'' @ b)"

definition sample_relative :: "string \<Rightarrow> string \<Rightarrow> string" where
  "sample_relative a b = drop (Suc (length a)) b"

definition sample_byPathDepth :: "string \<Rightarrow> string \<Rightarrow> int" where
  "sample_byPathDepth a b =
     int (length (js_split CHR ''/'' a)) - int (length (js_split CHR ''/'' b))"

definition sample_require :: "(string \<times> PackageJson) list \<Rightarrow> string \<Rightarrow> Required" where
  "sample_require files filePath =
     (case map_of files filePath of None \<Rightarrow> ModuleNotFound | Some m \<Rightarrow> Loaded m)"

definition sample_Externals :: "(string \<times> PackageJson) list \<Rightarrow> Externals" where
  "sample_Externals files =
     \<lparr>workspaceArg = Some ''packages/a'',
      ROOT_WORKSPACE_NAME = ''.'',
      existsSync = (\<lambda>p. p \<in> {''packages/a'', ''packages/b''}),
      join = sample_join,
      relative = sample_relative,
      byPathDepth = sample_byPathDepth,
      fastGlob = (\<lambda>cwd patterns ignore. [''packages/a'', ''packages/b'']),
      require = sample_require files,
      getPackageName = (\<lambda>m dir. pj_name m),
      isMatch = (\<lambda>name patterns. name \<in> set patterns)\<rparr>"

definition sample_root_manifest :: PackageJson where
  "sample_root_manifest =
     \<lparr>pj_name = Some ''root'', pj_workspaces = Some (WorkspacesArray [''packages/*''])\<rparr>"

text \<open>Two workspaces whose manifests declare the same package name.\<close>

definition duplicate_files :: "(string \<times> PackageJson) list" where
  "duplicate_files =
     [(''/r/packages/a/package.json'', \<lparr>pj_name = Some ''dup'', pj_workspaces = None\<rparr>),
      (''/r/packages/b/package.json'', \<lparr>pj_name = Some ''dup'', pj_workspaces = None\<rparr>)]"

definition sample_chief :: "bool \<Rightarrow> ConfigurationChief" where
  "sample_chief strict =
     \<lparr>cwd = ''/r'',
      isStrict = strict,
      manifest = Some sample_root_manifest,
      config_ignoreWorkspaces = [],
      ignoredWorkspacePatterns = [],
      workspacePackages = [],
      workspacePackagesByName = [],
      availableWorkspaceNames = [''packages/b'', ''packages/a'', ''.''],
      availableWorkspacePkgNames = [],
      availableWorkspaceDirs = [''/r/packages/b'', ''/r/packages/a'', ''/r''],
      packageGraph = Some [(''/r/packages/b'', [''/r/packages/a'']), (''/r/packages/a'', [])],
      includedWorkspaces = []\<rparr>"


definition no_options :: Options where
  "no_options = \<lparr>opt_isProduction = None, opt_include = None, opt_exclude = None\<rparr>"

definition cli :: "string list \<Rightarrow> string list \<Rightarrow> CLIArguments" where
  "cli incl excl =
     \<lparr>cli_include = incl, cli_exclude = excl, cli_dependencies = False,
      cli_exports = False, cli_files = False\<rparr>"

section \<open>Properties of util/tag.ts\<close>

lemma js_split_not_Nil: "js_split sep s \<noteq> []"
  by (induction s) (auto split: list.splits)

text \<open>
  The regular expression match is the first maximal run of letters, where the token
  has a letter at all.
\<close>

lemma match_letters_eq:
  "match_letters s = (if hasLetter s then Some (firstLetterRun s) else None)"
  by (induction s) (auto simp: hasLetter_def firstLetterRun_def)

lemma firstLetterRun_decomp:
  assumes h: "hasLetter s"
  shows "\<exists>pre post. s = pre @ firstLetterRun s @ post \<and> firstLetterRun s \<noteq> [] \<and>
           list_all isLetter (firstLetterRun s) \<and> list_all (\<lambda>c. \<not> isLetter c) pre \<and>
           (post = [] \<or> \<not> isLetter (hd post))"
proof -
  let ?pre = "takeWhile (\<lambda>c. \<not> isLetter c) s"
  let ?rest = "dropWhile (\<lambda>c. \<not> isLetter c) s"
  let ?post = "dropWhile isLetter ?rest"
  have 1: "s = ?pre @ firstLetterRun s @ ?post"
    by (simp add: firstLetterRun_def)
  have "?rest \<noteq> []" using h by (auto simp: hasLetter_def list_ex_iff)
  then have "isLetter (hd ?rest)" using hd_dropWhile[of "\<lambda>c. \<not> isLetter c" s] by simp
  then have 2: "firstLetterRun s \<noteq> []"
    using \<open>?rest \<noteq> []\<close> by (cases ?rest) (auto simp: firstLetterRun_def)
  have 3: "list_all isLetter (firstLetterRun s)"
    by (auto simp: firstLetterRun_def list_all_iff dest: set_takeWhileD)
  have 4: "list_all (\<lambda>c. \<not> isLetter c) ?pre"
    by (auto simp: list_all_iff dest: set_takeWhileD)
  have 5: "?post = [] \<or> \<not> isLetter (hd ?post)"
    using hd_dropWhile[of isLetter ?rest] by blast
  from 1 2 3 4 5 show ?thesis by blast
qed

lemma foldl_splitTags_step:
  "foldl splitTags_step (incl, excl) ts =
     (incl @ List.map_filter match_letters (filter (\<lambda>t. \<not> startsWith t ''-'') ts),
      excl @ List.map_filter match_letters (filter (\<lambda>t. startsWith t ''-'') ts))"
  by (induction ts arbitrary: incl excl)
     (auto simp: splitTags_step_def split: option.splits)

lemma mset_map_filter_split:
  "mset (List.map_filter f (filter (\<lambda>x. \<not> P x) xs)) + mset (List.map_filter f (filter P xs))
     = mset (List.map_filter f xs)"
  by (induction xs) (auto split: option.splits)

lemma map_filter_match_letters:
  "List.map_filter match_letters ts = map firstLetterRun (filter hasLetter ts)"
  by (induction ts) (auto simp: match_letters_eq)

lemmas tag_eval = splitTags_def splitTags_step_def startsWith_def isLetter_def

text \<open>
  Claim C9. \<open>splitTags\<close> splits every input string at its commas; the match of a
  token that starts with \<^verbatim>\<open>-\<close> goes to the exclude list and the match of any other
  token to the include list, in the order of the tokens. In particular
  \<^verbatim>\<open>splitTags(["a,-b","c"])\<close> is include \<^verbatim>\<open>["a","c"]\<close>, exclude \<^verbatim>\<open>["b"]\<close>.
\<close>

theorem splitTags_routes:
  "splitTags tags =
     (List.map_filter match_letters (filter (\<lambda>token. \<not> startsWith token ''-'') (tokens tags)),
      List.map_filter match_letters (filter (\<lambda>token. startsWith token ''-'') (tokens tags)))
   \<and> splitTags [''a,-b'', ''c''] = ([''a'', ''c''], [''b''])"
proof
  show "splitTags tags =
     (List.map_filter match_letters (filter (\<lambda>token. \<not> startsWith token ''-'') (tokens tags)),
      List.map_filter match_letters (filter (\<lambda>token. startsWith token ''-'') (tokens tags)))"
    by (simp add: splitTags_def tokens_def foldl_splitTags_step)
  show "splitTags [''a,-b'', ''c''] = ([''a'', ''c''], [''b''])"
    by (simp add: tag_eval)
qed

theorem splitTags_routes_witness:
  "splitTags [''x,-y9,,-'', ''-z''] = ([''x''], [''y'', ''z''])"
  using splitTags_routes[of "[''x,-y9,,-'', ''-z'']"]
  by (simp add: tokens_def startsWith_def isLetter_def)

text \<open>
  Claim C10. Every comma-separated token that has an ASCII letter contributes its
  first maximal run of letters, once, to one of the two lists, and a token without a
  letter contributes nothing: the two lists together hold exactly the first letter
  runs of the tokens that have a letter. So \<^verbatim>\<open>v2beta\<close> gives \<^verbatim>\<open>v\<close>,
  \<^verbatim>\<open>foo-bar\<close> gives \<^verbatim>\<open>foo\<close>, and \<^verbatim>\<open>123\<close>, \<^verbatim>\<open>-\<close> and the empty
  string give nothing.
\<close>

theorem splitTags_first_letter_run:
  "mset (fst (splitTags tags) @ snd (splitTags tags))
     = mset (map firstLetterRun (filter hasLetter (tokens tags)))
   \<and> splitTags [''v2beta''] = ([''v''], [])
   \<and> splitTags [''foo-bar''] = ([''foo''], [])
   \<and> splitTags [''123''] = ([], [])
   \<and> splitTags [''-''] = ([], [])
   \<and> splitTags [''''] = ([], [])"
proof -
  have "mset (fst (splitTags tags) @ snd (splitTags tags))
          = mset (List.map_filter match_letters (tokens tags))"
    by (simp add: splitTags_def tokens_def foldl_splitTags_step mset_map_filter_split)
  then have "mset (fst (splitTags tags) @ snd (splitTags tags))
     = mset (map firstLetterRun (filter hasLetter (tokens tags)))"
    by (simp add: map_filter_match_letters)
  moreover have "splitTags [''v2beta''] = ([''v''], [])" by (simp add: tag_eval)
  moreover have "splitTags [''foo-bar''] = ([''foo''], [])" by (simp add: tag_eval)
  moreover have "splitTags [''123''] = ([], [])" by (simp add: tag_eval)
  moreover have "splitTags [''-''] = ([], [])" by (simp add: tag_eval)
  moreover have "splitTags [''''] = ([], [])" by (simp add: tag_eval)
  ultimately show ?thesis by blast
qed

theorem splitTags_first_letter_run_witness:
  "mset (fst (splitTags [''v2beta,-9,-x1y'']) @ snd (splitTags [''v2beta,-9,-x1y'']))
     = {#''v'', ''x''#}"
  using splitTags_first_letter_run[of "[''v2beta,-9,-x1y'']"]
  by (simp add: tokens_def hasLetter_def firstLetterRun_def isLetter_def)

text \<open>
  Claim C7. \<open>shouldIgnore\<close> is true exactly when the include list is not empty and
  no entry of it, with \<^verbatim>\<open>@\<close> in front, is among the tags of the symbol, or the
  exclude list is not empty and some entry of it, with \<^verbatim>\<open>@\<close> in front, is among
  them; with both lists empty it is false.
\<close>

theorem shouldIgnore_iff:
  "shouldIgnore jsDocTags (incl, excl) =
     ((incl \<noteq> [] \<and> \<not> (\<exists>tag \<in> set incl. (CHR ''@'' # tag) \<in> asSet jsDocTags)) \<or>
      (excl \<noteq> [] \<and> (\<exists>tag \<in> set excl. (CHR ''@'' # tag) \<in> asSet jsDocTags)))
   \<and> shouldIgnore jsDocTags ([], []) = False"
  by (auto simp: shouldIgnore_def hasTag_def list_ex_iff Let_def)

theorem shouldIgnore_iff_witness:
  "\<not> shouldIgnore (TagSet {''@internal''}) ([''internal''], []) \<and>
   shouldIgnore (TagSet {''@internal''}) ([], [''internal'']) \<and>
   shouldIgnore (TagArray [''@public'']) ([''internal''], []) \<and>
   \<not> shouldIgnore (TagArray [''@internal'']) ([], [])"
  using shouldIgnore_iff[of "TagSet {''@internal''}" "[''internal'']" "[]"]
        shouldIgnore_iff[of "TagSet {''@internal''}" "[]" "[''internal'']"]
        shouldIgnore_iff[of "TagArray [''@public'']" "[''internal'']" "[]"]
        shouldIgnore_iff[of "TagArray [''@internal'']" "[]" "[]"]
  by simp

section \<open>Properties of util/get-included-issue-types.ts\<close>

lemma checkIssueTypes_Inr:
  "checkIssueTypes ISSUE_TYPES xs = Inr u \<longleftrightarrow> set xs \<subseteq> set ISSUE_TYPES"
  by (induction xs) auto

lemma checkIssueTypes_first_invalid:
  "List.find (\<lambda>t. t \<notin> set ISSUE_TYPES) xs = Some bad \<Longrightarrow>
     checkIssueTypes ISSUE_TYPES xs = Inl (ConfigurationError (''Invalid issue type: '' @ bad))"
  by (induction xs) (auto split: if_splits)

lemma find_invalid_exists:
  "t \<in> set xs \<Longrightarrow> t \<notin> set ISSUE_TYPES \<Longrightarrow>
     \<exists>bad. List.find (\<lambda>t. t \<notin> set ISSUE_TYPES) xs = Some bad"
  by (cases "List.find (\<lambda>t. t \<notin> set ISSUE_TYPES) xs") (auto simp: find_None_iff)

lemma map_of_report:
  "map_of (foldl (\<lambda>types group. AList.update group (f group) types) acc xs) g
     = (if g \<in> set xs then Some (f g) else map_of acc g)"
  by (induction xs arbitrary: acc) (auto simp: update_conv')

lemma report_lookup:
  assumes "getIncludedIssueTypes ISSUE_TYPES cliArgs opts = Inr report"
  shows "map_of report g =
           (if g \<in> set ISSUE_TYPES then Some (g \<in> set (included ISSUE_TYPES cliArgs opts)) else None)"
  using assms
  by (auto simp: getIncludedIssueTypes_def Let_def map_of_report split: sum.splits)

text \<open>
  Claim C8. If any token of the command line's include or exclude values (after
  splitting at commas) or any entry of the configuration's include or exclude lists
  is not in the taxonomy, \<open>getIncludedIssueTypes\<close> throws a configuration error
  and returns no report; the message names the first such token, in the order
  command-line include, command-line exclude, configured include, configured exclude.
\<close>

theorem invalid_issue_type_rejected:
  assumes "t \<in> set (normalize (cli_include cliArgs) @ normalize (cli_exclude cliArgs)
                      @ include_of opts @ exclude_of opts)"
      and "t \<notin> set ISSUE_TYPES"
  shows "\<exists>bad. List.find (\<lambda>t. t \<notin> set ISSUE_TYPES)
                  (normalize (cli_include cliArgs) @ normalize (cli_exclude cliArgs)
                     @ include_of opts @ exclude_of opts) = Some bad
               \<and> getIncludedIssueTypes ISSUE_TYPES cliArgs opts
                   = Inl (ConfigurationError (''Invalid issue type: '' @ bad))"
proof -
  from find_invalid_exists[OF assms] obtain bad where
    bad: "List.find (\<lambda>t. t \<notin> set ISSUE_TYPES)
            (normalize (cli_include cliArgs) @ normalize (cli_exclude cliArgs)
               @ include_of opts @ exclude_of opts) = Some bad"
    by blast
  have "getIncludedIssueTypes ISSUE_TYPES cliArgs opts
          = Inl (ConfigurationError (''Invalid issue type: '' @ bad))"
    using checkIssueTypes_first_invalid[OF bad]
    by (simp add: getIncludedIssueTypes_def Let_def)
  with bad show ?thesis by blast
qed

lemmas issue_eval =
  sample_ISSUE_TYPES_def cli_def no_options_def normalize_def include_of_def exclude_of_def
  isProduction_of_def incl_flags_def include0_def exclude0_def include1_def exclude1_def
  included_def defaultIssueTypes_def defaultExcludedIssueTypes_def

theorem invalid_issue_type_rejected_witness:
  "getIncludedIssueTypes sample_ISSUE_TYPES (cli [''files,bogus''] []) no_options
     = Inl (ConfigurationError ''Invalid issue type: bogus'')
   \<and> getIncludedIssueTypes sample_ISSUE_TYPES (cli [] [])
        \<lparr>opt_isProduction = None, opt_include = None, opt_exclude = Some [''files'', ''nope'']\<rparr>
     = Inl (ConfigurationError ''Invalid issue type: nope'')"
  using invalid_issue_type_rejected[of "''bogus''" "cli [''files,bogus''] []" no_options sample_ISSUE_TYPES]
        invalid_issue_type_rejected[of "''nope''" "cli [] []"
           "\<lparr>opt_isProduction = None, opt_include = None, opt_exclude = Some [''files'', ''nope'']\<rparr>"
           sample_ISSUE_TYPES]
  by (simp add: issue_eval)

text \<open>
  The entries of the configuration's lists are checked as they stand, not split at
  commas. Over a taxonomy whose names have no comma, an entry with an unknown
  comma-separated part is unknown as a whole, and is rejected all the same.
\<close>

lemma js_split_no_sep: "sep \<notin> set s \<Longrightarrow> js_split sep s = [s]"
  by (induction s) auto

lemma entry_with_invalid_token:
  assumes "t \<in> set (js_split CHR '','' e)" and "t \<notin> set ISSUE_TYPES"
      and "\<forall>g \<in> set ISSUE_TYPES. CHR '','' \<notin> set g"
  shows "e \<notin> set ISSUE_TYPES"
proof
  assume e: "e \<in> set ISSUE_TYPES"
  then have "CHR '','' \<notin> set e" using assms(3) by blast
  then have "js_split CHR '','' e = [e]" by (rule js_split_no_sep)
  with assms(1) have "t = e" by simp
  with assms(2) e show False by simp
qed

lemma find_Some_holds: "List.find P xs = Some x \<Longrightarrow> P x"
  by (induction xs) (auto split: if_splits)

lemma normalize_entry:
  "t \<in> set (normalize xs) \<Longrightarrow> \<exists>e \<in> set xs. t \<in> set (js_split CHR '','' e)"
  by (induction xs) (auto simp: normalize_def)

lemma invalid_token_of_config_entry_rejected:
  assumes t: "t \<in> set (normalize (include_of opts) @ normalize (exclude_of opts))"
      and "t \<notin> set ISSUE_TYPES"
      and "\<forall>g \<in> set ISSUE_TYPES. CHR '','' \<notin> set g"
  shows "\<exists>bad. bad \<notin> set ISSUE_TYPES \<and>
           getIncludedIssueTypes ISSUE_TYPES cliArgs opts
             = Inl (ConfigurationError (''Invalid issue type: '' @ bad))"
proof -
  from t have "t \<in> set (normalize (include_of opts)) \<or> t \<in> set (normalize (exclude_of opts))"
    by simp
  then obtain e where e: "e \<in> set (include_of opts) \<union> set (exclude_of opts)"
    "t \<in> set (js_split CHR '','' e)"
    using normalize_entry by blast
  have notin: "e \<notin> set ISSUE_TYPES"
    using entry_with_invalid_token[OF e(2) assms(2,3)] .
  have mem: "e \<in> set (normalize (cli_include cliArgs) @ normalize (cli_exclude cliArgs)
                      @ include_of opts @ exclude_of opts)"
    using e(1) by simp
  from find_invalid_exists[OF mem notin] obtain bad where
    bad: "List.find (\<lambda>t. t \<notin> set ISSUE_TYPES)
            (normalize (cli_include cliArgs) @ normalize (cli_exclude cliArgs)
               @ include_of opts @ exclude_of opts) = Some bad"
    by blast
  have "bad \<notin> set ISSUE_TYPES" using bad by (rule find_Some_holds)
  moreover have "getIncludedIssueTypes ISSUE_TYPES cliArgs opts
          = Inl (ConfigurationError (''Invalid issue type: '' @ bad))"
    using checkIssueTypes_first_invalid[OF bad]
    by (simp add: getIncludedIssueTypes_def Let_def)
  ultimately show ?thesis by blast
qed

text \<open>
  Claim C3, as stated, fails: with \<^verbatim>\<open>--include dependencies --exclude devDependencies\<close>
  and production mode off, the include list holds \<^verbatim>\<open>dependencies\<close> and the report
  has \<^verbatim>\<open>devDependencies\<close> false, since the exclude list is applied last.
\<close>

theorem dependencies_with_excluded_devDependencies_counterexample:
  "isProduction_of no_options = False
   \<and> ''dependencies'' \<in> set (include1 (cli [''dependencies''] [''devDependencies'']) no_options)
   \<and> getIncludedIssueTypes sample_ISSUE_TYPES (cli [''dependencies''] [''devDependencies'']) no_options
       = Inr [(''files'', False), (''dependencies'', True), (''devDependencies'', False),
              (''optionalPeerDependencies'', True), (''unlisted'', False), (''binaries'', False),
              (''unresolved'', False), (''exports'', False), (''nsExports'', False),
              (''types'', False), (''nsTypes'', False), (''enumMembers'', False),
              (''classMembers'', False), (''duplicates'', False)]"
  by (simp add: getIncludedIssueTypes_def issue_eval)

text \<open>
  Claim C3, amended. For a call that returns a report, over a taxonomy that has
  \<^verbatim>\<open>devDependencies\<close> and \<^verbatim>\<open>optionalPeerDependencies\<close>: with production mode
  off and \<^verbatim>\<open>dependencies\<close> in the resulting include list, each of the two is true
  in the report exactly when it is not in the resulting exclude list; with production
  mode off and \<^verbatim>\<open>dependencies\<close> in the resulting exclude list, both are false; with
  production mode on, \<^verbatim>\<open>devDependencies\<close> is false whatever is included.
\<close>

theorem dependencies_imply_devDependencies:
  assumes r: "getIncludedIssueTypes ISSUE_TYPES cliArgs opts = Inr report"
      and dev: "''devDependencies'' \<in> set ISSUE_TYPES"
      and opt: "''optionalPeerDependencies'' \<in> set ISSUE_TYPES"
  shows "(\<not> isProduction_of opts \<and> ''dependencies'' \<in> set (include1 cliArgs opts) \<longrightarrow>
            map_of report ''devDependencies''
              = Some (''devDependencies'' \<notin> set (exclude1 cliArgs opts)) \<and>
            map_of report ''optionalPeerDependencies''
              = Some (''optionalPeerDependencies'' \<notin> set (exclude1 cliArgs opts)))
       \<and> (\<not> isProduction_of opts \<and> ''dependencies'' \<in> set (exclude1 cliArgs opts) \<longrightarrow>
            map_of report ''devDependencies'' = Some False \<and>
            map_of report ''optionalPeerDependencies'' = Some False)
       \<and> (isProduction_of opts \<longrightarrow> map_of report ''devDependencies'' = Some False)"
proof (intro conjI impI)
  assume a: "\<not> isProduction_of opts \<and> ''dependencies'' \<in> set (include1 cliArgs opts)"
  then have i1: "include1 cliArgs opts
      = include0 cliArgs opts @ [''devDependencies'', ''optionalPeerDependencies'']"
    by (auto simp: include1_def Let_def split: if_splits)
  have ex: "list_ex (\<lambda>type. type \<notin> set defaultExcludedIssueTypes) (include1 cliArgs opts)"
    using a by (auto simp: list_ex_iff defaultExcludedIssueTypes_def intro!: bexI[of _ "''dependencies''"])
  have inc: "included ISSUE_TYPES cliArgs opts
      = filter (\<lambda>group. group \<notin> set (exclude1 cliArgs opts)) (include1 cliArgs opts)"
    using ex i1 by (simp add: included_def Let_def)
  show "map_of report ''devDependencies''
              = Some (''devDependencies'' \<notin> set (exclude1 cliArgs opts))"
    using dev by (simp add: report_lookup[OF r] inc i1)
  show "map_of report ''optionalPeerDependencies''
              = Some (''optionalPeerDependencies'' \<notin> set (exclude1 cliArgs opts))"
    using opt by (simp add: report_lookup[OF r] inc i1)
next
  assume a: "\<not> isProduction_of opts \<and> ''dependencies'' \<in> set (exclude1 cliArgs opts)"
  then have e1: "exclude1 cliArgs opts
      = exclude0 cliArgs opts @ [''devDependencies'', ''optionalPeerDependencies'']"
    by (auto simp: exclude1_def Let_def split: if_splits)
  show "map_of report ''devDependencies'' = Some False"
    using dev by (simp add: report_lookup[OF r] included_def Let_def e1)
  show "map_of report ''optionalPeerDependencies'' = Some False"
    using opt by (simp add: report_lookup[OF r] included_def Let_def e1)
next
  assume a: "isProduction_of opts"
  then have e1: "exclude1 cliArgs opts = exclude0 cliArgs opts @ [''devDependencies'']"
    by (simp add: exclude1_def Let_def)
  show "map_of report ''devDependencies'' = Some False"
    using dev by (simp add: report_lookup[OF r] included_def Let_def e1)
qed


theorem dependencies_imply_devDependencies_witness:
  "map_of [(''files'', False), (''dependencies'', True), (''devDependencies'', True),
           (''optionalPeerDependencies'', True), (''unlisted'', False), (''binaries'', False),
           (''unresolved'', False), (''exports'', False), (''nsExports'', False),
           (''types'', False), (''nsTypes'', False), (''enumMembers'', False),
           (''classMembers'', False), (''duplicates'', False)] ''devDependencies''
     = Some (''devDependencies'' \<notin> set (exclude1 (cli [''dependencies''] []) no_options))
   \<and> ''devDependencies'' \<notin> set (exclude1 (cli [''dependencies''] []) no_options)"
proof -
  have r: "getIncludedIssueTypes sample_ISSUE_TYPES (cli [''dependencies''] []) no_options
       = Inr [(''files'', False), (''dependencies'', True), (''devDependencies'', True),
              (''optionalPeerDependencies'', True), (''unlisted'', False), (''binaries'', False),
              (''unresolved'', False), (''exports'', False), (''nsExports'', False),
              (''types'', False), (''nsTypes'', False), (''enumMembers'', False),
              (''classMembers'', False), (''duplicates'', False)]"
    by (simp add: getIncludedIssueTypes_def issue_eval)
  have d: "''devDependencies'' \<in> set sample_ISSUE_TYPES"
    and p: "''optionalPeerDependencies'' \<in> set sample_ISSUE_TYPES"
    by (simp_all add: sample_ISSUE_TYPES_def)
  have a: "\<not> isProduction_of no_options \<and>
           ''dependencies'' \<in> set (include1 (cli [''dependencies''] []) no_options)"
    by (simp add: issue_eval)
  have e: "''devDependencies'' \<notin> set (exclude1 (cli [''dependencies''] []) no_options)"
    by (simp add: issue_eval)
  from dependencies_imply_devDependencies[OF r d p] a e show ?thesis by blast
qed

text \<open>
  Claim C5, as stated, fails: \<^verbatim>\<open>--include nsExports,files\<close> asks for the normally
  excluded \<^verbatim>\<open>nsExports\<close>, and the default set is not layered in: \<^verbatim>\<open>exports\<close>,
  a default type that nothing excludes, is false in the report.
\<close>

theorem normally_excluded_with_other_type_counterexample:
  "''nsExports'' \<in> set (normalize (cli_include (cli [''nsExports,files''] [])))
   \<and> ''nsExports'' \<in> set defaultExcludedIssueTypes
   \<and> ''exports'' \<in> set (defaultIssueTypes sample_ISSUE_TYPES)
   \<and> getIncludedIssueTypes sample_ISSUE_TYPES (cli [''nsExports,files''] []) no_options
       = Inr [(''files'', True), (''dependencies'', False), (''devDependencies'', False),
              (''optionalPeerDependencies'', False), (''unlisted'', False), (''binaries'', False),
              (''unresolved'', False), (''exports'', False), (''nsExports'', True),
              (''types'', False), (''nsTypes'', False), (''enumMembers'', False),
              (''classMembers'', False), (''duplicates'', False)]"
  by (simp add: getIncludedIssueTypes_def issue_eval)

text \<open>
  Claim C5, amended. For a call that returns a report and a type \<open>g\<close> of the
  taxonomy: when the resulting include list is empty, \<open>g\<close> is reported exactly when it
  is a default type (the taxonomy without \<^verbatim>\<open>classMembers\<close>, \<^verbatim>\<open>nsExports\<close>,
  \<^verbatim>\<open>nsTypes\<close>) and not excluded; when the include list is not empty and holds
  normally excluded types only, exactly when it is included or a default type, and not
  excluded; when the include list holds any other type, exactly when it is included and
  not excluded.
\<close>

theorem default_issue_types_layering:
  assumes r: "getIncludedIssueTypes ISSUE_TYPES cliArgs opts = Inr report"
      and g: "g \<in> set ISSUE_TYPES"
  shows "(include1 cliArgs opts = [] \<longrightarrow>
            map_of report g = Some (g \<in> set (defaultIssueTypes ISSUE_TYPES) \<and>
                                    g \<notin> set (exclude1 cliArgs opts)))
       \<and> (include1 cliArgs opts \<noteq> [] \<and>
          set (include1 cliArgs opts) \<subseteq> set defaultExcludedIssueTypes \<longrightarrow>
            map_of report g = Some ((g \<in> set (include1 cliArgs opts) \<or>
                                     g \<in> set (defaultIssueTypes ISSUE_TYPES)) \<and>
                                    g \<notin> set (exclude1 cliArgs opts)))
       \<and> (\<not> set (include1 cliArgs opts) \<subseteq> set defaultExcludedIssueTypes \<longrightarrow>
            map_of report g = Some (g \<in> set (include1 cliArgs opts) \<and>
                                    g \<notin> set (exclude1 cliArgs opts)))
       \<and> set (defaultIssueTypes ISSUE_TYPES)
            = set ISSUE_TYPES - {''classMembers'', ''nsExports'', ''nsTypes''}"
proof (intro conjI impI)
  assume "include1 cliArgs opts = []"
  then show "map_of report g = Some (g \<in> set (defaultIssueTypes ISSUE_TYPES) \<and>
                                    g \<notin> set (exclude1 cliArgs opts))"
    using g by (auto simp: report_lookup[OF r] included_def Let_def)
next
  assume a: "include1 cliArgs opts \<noteq> [] \<and>
          set (include1 cliArgs opts) \<subseteq> set defaultExcludedIssueTypes"
  then have "\<not> list_ex (\<lambda>type. type \<notin> set defaultExcludedIssueTypes) (include1 cliArgs opts)"
    by (auto simp: list_ex_iff)
  then show "map_of report g = Some ((g \<in> set (include1 cliArgs opts) \<or>
                                     g \<in> set (defaultIssueTypes ISSUE_TYPES)) \<and>
                                    g \<notin> set (exclude1 cliArgs opts))"
    using g a by (auto simp: report_lookup[OF r] included_def Let_def)
next
  assume a: "\<not> set (include1 cliArgs opts) \<subseteq> set defaultExcludedIssueTypes"
  then have "list_ex (\<lambda>type. type \<notin> set defaultExcludedIssueTypes) (include1 cliArgs opts)"
    by (auto simp: list_ex_iff)
  moreover have "include1 cliArgs opts \<noteq> []" using a by auto
  ultimately show "map_of report g = Some (g \<in> set (include1 cliArgs opts) \<and>
                                    g \<notin> set (exclude1 cliArgs opts))"
    using g by (auto simp: report_lookup[OF r] included_def Let_def)
next
  show "set (defaultIssueTypes ISSUE_TYPES)
            = set ISSUE_TYPES - {''classMembers'', ''nsExports'', ''nsTypes''}"
    by (auto simp: defaultIssueTypes_def defaultExcludedIssueTypes_def)
qed

theorem default_issue_types_layering_witness:
  "map_of [(''files'', True), (''dependencies'', True), (''devDependencies'', True),
           (''optionalPeerDependencies'', True), (''unlisted'', True), (''binaries'', True),
           (''unresolved'', True), (''exports'', True), (''nsExports'', True),
           (''types'', True), (''nsTypes'', False), (''enumMembers'', True),
           (''classMembers'', False), (''duplicates'', True)] ''exports''
     = Some ((''exports'' \<in> set (include1 (cli [''nsExports''] []) no_options) \<or>
              ''exports'' \<in> set (defaultIssueTypes sample_ISSUE_TYPES)) \<and>
             ''exports'' \<notin> set (exclude1 (cli [''nsExports''] []) no_options))
   \<and> ''exports'' \<notin> set (include1 (cli [''nsExports''] []) no_options)"
proof -
  have r: "getIncludedIssueTypes sample_ISSUE_TYPES (cli [''nsExports''] []) no_options
       = Inr [(''files'', True), (''dependencies'', True), (''devDependencies'', True),
           (''optionalPeerDependencies'', True), (''unlisted'', True), (''binaries'', True),
           (''unresolved'', True), (''exports'', True), (''nsExports'', True),
           (''types'', True), (''nsTypes'', False), (''enumMembers'', True),
           (''classMembers'', False), (''duplicates'', True)]"
    by (simp add: getIncludedIssueTypes_def issue_eval)
  have g: "''exports'' \<in> set sample_ISSUE_TYPES"
    by (simp add: sample_ISSUE_TYPES_def)
  have a: "include1 (cli [''nsExports''] []) no_options \<noteq> [] \<and>
           set (include1 (cli [''nsExports''] []) no_options) \<subseteq> set defaultExcludedIssueTypes"
    by (simp add: issue_eval)
  have n: "''exports'' \<notin> set (include1 (cli [''nsExports''] []) no_options)"
    by (simp add: issue_eval)
  from default_issue_types_layering[OF r g] a n show ?thesis by blast
qed

section \<open>Properties of ConfigurationChief.ts\<close>

subsection \<open>Sets, sorting\<close>

lemma set_set_of_array: "set (set_of_array xs) = set xs"
proof -
  have "set (foldl (\<lambda>acc x. set_add x acc) acc xs) = set acc \<union> set xs" for acc
    by (induction xs arbitrary: acc) (auto simp: set_set_add)
  then show ?thesis by (simp add: set_of_array_def)
qed


lemma distinct_set_add: "distinct xs \<Longrightarrow> distinct (set_add x xs)"
  by (simp add: set_add_def)


lemma length_insert_by: "length (insert_by cmp x xs) = Suc (length xs)"
  by (induction xs) auto


lemma mset_insert_by: "mset (insert_by cmp x xs) = add_mset x (mset xs)"
  by (induction xs) auto

lemma mset_js_sort: "mset (js_sort cmp xs) = mset xs"
proof -
  have "mset (foldl (\<lambda>acc x. insert_by cmp x acc) acc xs) = mset acc + mset xs" for acc
    by (induction xs arbitrary: acc) (auto simp: mset_insert_by)
  then show ?thesis by (simp add: js_sort_def)
qed

lemma js_sort_single: "js_sort cmp [x] = [x]"
  by (simp add: js_sort_def)

subsection \<open>The dependents walk\<close>

text \<open>
  What one call of \<open>addDependents\<close> and one run of its loop add to the log and to
  \<open>seen\<close>: the directories entered by recursion are pairwise distinct, were not
  seen before, and are edge targets of the graph.
\<close>

lemma walk_trace:
  "\<exists>rest. entered (addDependents graph iw dir st) = entered st @ dir # rest \<and>
          distinct rest \<and> set rest \<inter> insert dir (set (seen st)) = {} \<and>
          set rest \<subseteq> successors graph \<and>
          set (seen (addDependents graph iw dir st)) = insert dir (set (seen st)) \<union> set rest"
  "\<exists>new. entered (forDirs graph iw ds st) = entered st @ new \<and>
          distinct new \<and> set new \<inter> set (seen st) = {} \<and>
          set new \<subseteq> set ds \<union> successors graph \<and>
          set (seen (forDirs graph iw ds st)) = set (seen st) \<union> set new"
proof (induct graph iw dir st and graph iw ds st rule: addDependents_forDirs.induct)
  case (1 graph iw dir st)
  let ?st1 = "st\<lparr>seen := set_add dir (seen st), entered := entered st @ [dir]\<rparr>"
  show ?case
  proof (cases "map_of graph dir")
    case None
    then show ?thesis by (simp add: addDependents.simps set_set_add)
  next
    case (Some dirs)
    show ?thesis
    proof (cases "length dirs = 0")
      case True
      then show ?thesis using Some by (simp add: addDependents.simps set_set_add)
    next
      case False
      let ?st2 = "if list_ex (\<lambda>d. d \<in> set dirs) iw
                  then ?st1\<lparr>workspaceDirsWithDependents :=
                             set_add dir (workspaceDirsWithDependents ?st1)\<rparr>
                  else ?st1"
      have eq: "addDependents graph iw dir st = forDirs graph iw dirs ?st2"
        using Some False by (simp add: addDependents.simps Let_def)
      have s2: "set (seen ?st2) = insert dir (set (seen st))" "entered ?st2 = entered st @ [dir]"
        by (simp_all add: set_set_add)
      from "1"[OF refl Some False] obtain new where
        new: "entered (forDirs graph iw dirs ?st2) = entered ?st2 @ new"
          "distinct new" "set new \<inter> set (seen ?st2) = {}"
          "set new \<subseteq> set dirs \<union> successors graph"
          "set (seen (forDirs graph iw dirs ?st2)) = set (seen ?st2) \<union> set new"
        by blast
      have "set new \<subseteq> successors graph"
        using new(4) map_of_successors[OF Some] by blast
      then show ?thesis
        unfolding eq using new s2 by (intro exI[of _ new]) simp
    qed
  qed
next
  case (2 graph iw st)
  then show ?case by simp
next
  case (3 graph iw d ds st)
  show ?case
  proof (cases "d \<notin> set (seen st)")
    case True
    let ?st' = "addDependents graph iw d st"
    from "3"(1)[OF True] obtain rest where
      rest: "entered ?st' = entered st @ d # rest" "distinct rest"
        "set rest \<inter> insert d (set (seen st)) = {}"
        "set rest \<subseteq> successors graph"
        "set (seen ?st') = insert d (set (seen st)) \<union> set rest"
      by blast
    from "3"(2) True obtain new where
      new: "entered (forDirs graph iw ds ?st') = entered ?st' @ new" "distinct new"
        "set new \<inter> set (seen ?st') = {}"
        "set new \<subseteq> set ds \<union> successors graph"
        "set (seen (forDirs graph iw ds ?st')) = set (seen ?st') \<union> set new"
      by auto
    show ?thesis
      using True rest new by (intro exI[of _ "d # rest @ new"]) auto
  next
    case False
    from "3"(2) False obtain new where
      new: "entered (forDirs graph iw ds st) = entered st @ new" "distinct new"
        "set new \<inter> set (seen st) = {}"
        "set new \<subseteq> set ds \<union> successors graph"
        "set (seen (forDirs graph iw ds st)) = set (seen st) \<union> set new"
      by auto
    show ?thesis
      using False new by (intro exI[of _ new]) auto
  qed
qed

lemma walk_keeps:
  "set (workspaceDirsWithDependents st)
     \<subseteq> set (workspaceDirsWithDependents (addDependents graph iw dir st))"
  "set (workspaceDirsWithDependents st)
     \<subseteq> set (workspaceDirsWithDependents (forDirs graph iw ds st))"
proof (induct graph iw dir st and graph iw ds st rule: addDependents_forDirs.induct)
  case (1 graph iw dir st)
  let ?st1 = "st\<lparr>seen := set_add dir (seen st), entered := entered st @ [dir]\<rparr>"
  show ?case
  proof (cases "map_of graph dir")
    case None
    then show ?thesis by (simp add: addDependents.simps)
  next
    case (Some dirs)
    show ?thesis
    proof (cases "length dirs = 0")
      case True
      then show ?thesis using Some by (simp add: addDependents.simps)
    next
      case False
      let ?st2 = "if list_ex (\<lambda>d. d \<in> set dirs) iw
                  then ?st1\<lparr>workspaceDirsWithDependents :=
                             set_add dir (workspaceDirsWithDependents ?st1)\<rparr>
                  else ?st1"
      have eq: "addDependents graph iw dir st = forDirs graph iw dirs ?st2"
        using Some False by (simp add: addDependents.simps Let_def)
      have "set (workspaceDirsWithDependents st) \<subseteq> set (workspaceDirsWithDependents ?st2)"
        by (simp add: set_set_add subset_insertI)
      also have "\<dots> \<subseteq> set (workspaceDirsWithDependents (forDirs graph iw dirs ?st2))"
        using "1"[OF refl Some False] .
      finally show ?thesis unfolding eq .
    qed
  qed
next
  case (2 graph iw st)
  then show ?case by simp
next
  case (3 graph iw d ds st)
  show ?case
  proof (cases "d \<notin> set (seen st)")
    case True
    have "set (workspaceDirsWithDependents st)
            \<subseteq> set (workspaceDirsWithDependents (addDependents graph iw d st))"
      using "3"(1)[OF True] .
    also have "\<dots> \<subseteq> set (workspaceDirsWithDependents
                           (forDirs graph iw ds (addDependents graph iw d st)))"
      using "3"(2) True by simp
    finally show ?thesis using True by simp
  next
    case False
    then show ?thesis using "3"(2) by simp
  qed
qed


lemma walk_pass:
  "\<exists>recs. distinct recs \<and> set recs \<inter> set (seen st) = {} \<and> set recs \<subseteq> successors graph \<and>
     mset (entered (foldl (\<lambda>st dir. addDependents graph iw dir st) st dirs))
       = mset (entered st) + mset dirs + mset recs \<and>
     set (seen (foldl (\<lambda>st dir. addDependents graph iw dir st) st dirs))
       = set (seen st) \<union> set dirs \<union> set recs"
proof (induction dirs arbitrary: st)
  case Nil
  show ?case by (intro exI[of _ "[]"]) simp
next
  case (Cons d ds)
  let ?st' = "addDependents graph iw d st"
  from walk_trace(1)[of graph iw d st] obtain rest where
    rest: "entered ?st' = entered st @ d # rest" "distinct rest"
      "set rest \<inter> insert d (set (seen st)) = {}" "set rest \<subseteq> successors graph"
      "set (seen ?st') = insert d (set (seen st)) \<union> set rest"
    by blast
  from Cons.IH[of ?st'] obtain recs where
    recs: "distinct recs" "set recs \<inter> set (seen ?st') = {}" "set recs \<subseteq> successors graph"
      "mset (entered (foldl (\<lambda>st dir. addDependents graph iw dir st) ?st' ds))
         = mset (entered ?st') + mset ds + mset recs"
      "set (seen (foldl (\<lambda>st dir. addDependents graph iw dir st) ?st' ds))
         = set (seen ?st') \<union> set ds \<union> set recs"
    by blast
  show ?case
    using rest recs by (intro exI[of _ "rest @ recs"]) auto
qed

lemma walk_pass_keeps:
  "set (workspaceDirsWithDependents st)
     \<subseteq> set (workspaceDirsWithDependents (foldl (\<lambda>st dir. addDependents graph iw dir st) st dirs))"
proof (induction dirs arbitrary: st)
  case Nil
  show ?case by simp
next
  case (Cons d ds)
  show ?case
    using walk_keeps(1)[of st graph iw d] Cons.IH[of "addDependents graph iw d st"] by auto
qed

lemma walkDependents_initial:
  "set initialWorkspaces
     \<subseteq> set (workspaceDirsWithDependents (walkDependents graph initialWorkspaces dirs))"
  unfolding walkDependents_def
  using walk_pass_keeps[of "\<lparr>seen = [], workspaceDirsWithDependents = set_of_array initialWorkspaces,
                             entered = []\<rparr>" graph initialWorkspaces dirs]
  by (simp add: set_set_of_array)





text \<open>
  Claim C6, as stated, fails on an acyclic graph: with \<^verbatim>\<open>/r/b\<close> depending on
  \<^verbatim>\<open>/r/a\<close> and the pass over \<^verbatim>\<open>/r/b\<close>, \<^verbatim>\<open>/r/a\<close>, \<^verbatim>\<open>/r\<close>, the
  closure is entered with \<^verbatim>\<open>/r/a\<close> twice: once by recursion from \<^verbatim>\<open>/r/b\<close>,
  and once more by \<^verbatim>\<open>forEach\<close>, which does not consult \<open>seen\<close>.
\<close>

theorem walk_revisits_counterexample:
  "entered (walkDependents [(''/r/b'', [''/r/a''])] [''/r'', ''/r/a''] [''/r/b'', ''/r/a'', ''/r''])
     = [''/r/b'', ''/r/a'', ''/r/a'', ''/r'']"
  by (simp add: walkDependents_def addDependents.simps set_of_array_def set_add_def)

text \<open>
  Claim C6, amended. For every package graph, with or without cycles: every call of
  \<open>addDependents\<close> terminates; the directories it enters are pairwise distinct, those
  it enters by recursion were not in \<open>seen\<close>, and there are no more of them than
  unseen edge targets; on a directory without edges it returns at once; and over the
  whole pass a directory is entered once for each time it is listed in
  \<open>availableWorkspaceDirs\<close> and at most once more, by recursion.
\<close>

theorem dependents_walk_terminates:
  "addDependents_forDirs_dom (Inl (graph, initialWorkspaces, dir, st))
   \<and> (\<exists>rest. entered (addDependents graph initialWorkspaces dir st) = entered st @ dir # rest \<and>
              distinct (dir # rest) \<and> set rest \<inter> set (seen st) = {} \<and>
              length rest \<le> card (successors graph - set (seen st) - {dir}))
   \<and> (map_of graph dir = None \<or> map_of graph dir = Some [] \<longrightarrow>
        addDependents graph initialWorkspaces dir st
          = st\<lparr>seen := set_add dir (seen st), entered := entered st @ [dir]\<rparr>)
   \<and> (\<exists>recs. distinct recs \<and>
         mset (entered (walkDependents graph initialWorkspaces dirs)) = mset dirs + mset recs)"
proof (intro conjI)
  show "addDependents_forDirs_dom (Inl (graph, initialWorkspaces, dir, st))"
    by (rule addDependents_forDirs_total)
next
  from walk_trace(1)[of graph initialWorkspaces dir st] obtain rest where
    rest: "entered (addDependents graph initialWorkspaces dir st) = entered st @ dir # rest"
      "distinct rest" "set rest \<inter> insert dir (set (seen st)) = {}"
      "set rest \<subseteq> successors graph"
    by blast
  have "set rest \<subseteq> successors graph - set (seen st) - {dir}"
    using rest(3,4) by auto
  then have "card (set rest) \<le> card (successors graph - set (seen st) - {dir})"
    by (intro card_mono) (auto simp: finite_successors)
  then have "length rest \<le> card (successors graph - set (seen st) - {dir})"
    using rest(2) by (simp add: distinct_card)
  then show "\<exists>rest. entered (addDependents graph initialWorkspaces dir st) = entered st @ dir # rest \<and>
              distinct (dir # rest) \<and> set rest \<inter> set (seen st) = {} \<and>
              length rest \<le> card (successors graph - set (seen st) - {dir})"
    using rest by (intro exI[of _ rest]) auto
next
  show "map_of graph dir = None \<or> map_of graph dir = Some [] \<longrightarrow>
        addDependents graph initialWorkspaces dir st
          = st\<lparr>seen := set_add dir (seen st), entered := entered st @ [dir]\<rparr>"
    by (auto simp: addDependents.simps)
next
  from walk_pass[of "\<lparr>seen = [], workspaceDirsWithDependents = set_of_array initialWorkspaces,
                      entered = []\<rparr>" graph initialWorkspaces dirs]
  show "\<exists>recs. distinct recs \<and>
         mset (entered (walkDependents graph initialWorkspaces dirs)) = mset dirs + mset recs"
    unfolding walkDependents_def by auto
qed

theorem dependents_walk_terminates_witness:
  "addDependents [(''/r/a'', [''/r/b'']), (''/r/b'', [''/r/a''])] [''/r/a''] ''/r''
     \<lparr>seen = [], workspaceDirsWithDependents = [''/r/a''], entered = []\<rparr>
     = \<lparr>seen = [''/r''], workspaceDirsWithDependents = [''/r/a''], entered = [''/r'']\<rparr>
   \<and> entered (walkDependents [(''/r/a'', [''/r/b'']), (''/r/b'', [''/r/a''])] [''/r/a'']
                [''/r/b'', ''/r/a'', ''/r''])
       = [''/r/b'', ''/r/a'', ''/r/a'', ''/r'']"
proof -
  have "map_of [(''/r/a'', [''/r/b'']), (''/r/b'', [''/r/a''])] ''/r'' = None
        \<or> map_of [(''/r/a'', [''/r/b'']), (''/r/b'', [''/r/a''])] ''/r'' = Some []"
    by simp
  with dependents_walk_terminates[of "[(''/r/a'', [''/r/b'']), (''/r/b'', [''/r/a''])]"
         "[''/r/a'']" "''/r''" "\<lparr>seen = [], workspaceDirsWithDependents = [''/r/a''], entered = []\<rparr>"
         "[''/r/b'', ''/r/a'', ''/r'']"]
  have "addDependents [(''/r/a'', [''/r/b'']), (''/r/b'', [''/r/a''])] [''/r/a''] ''/r''
     \<lparr>seen = [], workspaceDirsWithDependents = [''/r/a''], entered = []\<rparr>
     = \<lparr>seen = [''/r''], workspaceDirsWithDependents = [''/r/a''], entered = [''/r'']\<rparr>"
    by (simp add: set_add_def)
  moreover have "entered (walkDependents [(''/r/a'', [''/r/b'']), (''/r/b'', [''/r/a''])] [''/r/a'']
                [''/r/b'', ''/r/a'', ''/r''])
       = [''/r/b'', ''/r/a'', ''/r/a'', ''/r'']"
    by (simp add: walkDependents_def addDependents.simps set_of_array_def set_add_def)
  ultimately show ?thesis by simp
qed



lemma ws_name_toWorkspace: "ws_name (toWorkspace X c name) = name"
  by (simp add: toWorkspace_def Let_def)

lemma toWorkspace_packageGraph:
  "toWorkspace X (c\<lparr>packageGraph := g\<rparr>) name = toWorkspace X c name"
  by (simp add: toWorkspace_def ancestorsOf_def Let_def)

lemma selector_Some: "workspaceArg X = Some w \<Longrightarrow> w \<noteq> [] \<Longrightarrow> selector X = Some w"
  by (simp add: selector_def)

subsection \<open>Scope\<close>

text \<open>
  Claim C2, as stated, fails: with the selector \<^verbatim>\<open>packages/zzz\<close>, a directory
  that does not exist, and strict mode on, \<open>determineIncludedWorkspaces\<close> throws
  \<^verbatim>\<open>Directory does not exist: packages/zzz\<close> and no workspace is returned.
\<close>

theorem strict_selector_missing_directory_counterexample:
  "workspaceArg ((sample_Externals [])\<lparr>workspaceArg := Some ''packages/zzz''\<rparr>)
     = Some ''packages/zzz''
   \<and> isStrict (sample_chief True)
   \<and> existsSync ((sample_Externals [])\<lparr>workspaceArg := Some ''packages/zzz''\<rparr>)
         ''packages/zzz'' = False
   \<and> setWorkspaces_scope ((sample_Externals [])\<lparr>workspaceArg := Some ''packages/zzz''\<rparr>)
         (sample_chief True)
       = Inl (ConfigurationError ''Directory does not exist: packages/zzz'')"
  by (simp add: setWorkspaces_scope_def determineIncludedWorkspaces_def selector_def
        sample_Externals_def sample_chief_def)

text \<open>
  Claim C2, amended. With a workspace selector, the directory of which exists, and
  strict mode on, \<open>getIncludedWorkspaces\<close> returns exactly one workspace, the
  selected one, whatever the package graph is.
\<close>

theorem strict_selector_single_workspace:
  assumes "workspaceArg X = Some w" and "w \<noteq> []" and "existsSync X w" and "isStrict c"
  shows "\<exists>c'. setWorkspaces_scope X (c\<lparr>packageGraph := graph\<rparr>) = Inr c' \<and>
              getIncludedWorkspaces c' = [toWorkspace X c w] \<and>
              map ws_name (getIncludedWorkspaces c') = [w]"
proof -
  have sel: "selector X = Some w" using assms(1,2) by (rule selector_Some)
  have "includedNames X (c\<lparr>packageGraph := graph\<rparr>) = [w]"
    using sel assms(4) by (simp add: includedNames_def set_add_def)
  then have "determineIncludedWorkspaces X (c\<lparr>packageGraph := graph\<rparr>)
               = Inr [toWorkspace X c w]"
    using sel assms(3)
    by (simp add: determineIncludedWorkspaces_def js_sort_single toWorkspace_packageGraph)
  then show ?thesis
    by (simp add: setWorkspaces_scope_def getIncludedWorkspaces_def ws_name_toWorkspace)
qed

lemmas chief_eval =
  sample_Externals_def sample_chief_def sample_join_def sample_relative_def
  sample_byPathDepth_def selector_def

theorem strict_selector_single_workspace_witness:
  "setWorkspaces_scope (sample_Externals []) (sample_chief True)
     = Inr ((sample_chief True)\<lparr>includedWorkspaces :=
              [\<lparr>ws_name = ''packages/a'', ws_pkgName = ''NOT_FOUND_packages/a'',
                ws_dir = ''/r/packages/a'', ws_ancestors = [''.''],
                ws_manifestPath = ''/r/packages/a/package.json''\<rparr>]\<rparr>)"
proof -
  have 1: "workspaceArg (sample_Externals []) = Some ''packages/a''"
    and 2: "''packages/a'' \<noteq> []"
    and 3: "existsSync (sample_Externals []) ''packages/a''"
    and 4: "isStrict (sample_chief True)"
    by (simp_all add: chief_eval)
  have g: "(sample_chief True)\<lparr>packageGraph := packageGraph (sample_chief True)\<rparr> = sample_chief True"
    by simp
  from strict_selector_single_workspace[OF 1 2 3 4, of "packageGraph (sample_chief True)"]
  show ?thesis
    unfolding g
    by (auto simp: setWorkspaces_scope_def getIncludedWorkspaces_def toWorkspace_def
          ancestorsOf_def getAncestors_def startsWith_def chief_eval Let_def
          split: sum.splits)
qed






subsection \<open>Package names\<close>

text \<open>
  The keys of a \<^verbatim>\<open>Map\<close> are pairwise distinct, so the loop of
  \<open>getAvailableWorkspacePkgNames\<close> never finds a name in \<open>names\<close>: once
  \<open>mapWorkspaces\<close> has returned, the discovery step returns as well.
\<close>

lemma mapWorkspaces_loop_distinct:
  "mapWorkspaces_loop X wd names (byPkgDir, byPkgName) = Inr (byPkgDir', byPkgName') \<Longrightarrow>
     distinct (map fst byPkgName) \<Longrightarrow> distinct (map fst byPkgName')"
proof (induction names arbitrary: byPkgDir byPkgName)
  case Nil
  then show ?case by simp
next
  case (Cons name rest)
  then show ?case
    by (auto simp: Let_def distinct_update split: Required.splits option.splits if_splits)
qed

lemma mapWorkspaces_distinct:
  "mapWorkspaces X wd workspaces = Inr (byPkgDir, byPkgName) \<Longrightarrow> distinct (map fst byPkgName)"
  by (auto simp: mapWorkspaces_def partition_by_def
           dest: mapWorkspaces_loop_distinct split: if_splits)

lemma addRootPackage_distinct:
  "distinct (map fst (workspacePackagesByName c)) \<Longrightarrow>
     distinct (map fst (workspacePackagesByName (addRootPackage X c)))"
  by (auto simp: addRootPackage_def Let_def distinct_update split: option.splits)

lemma getAvailableWorkspacePkgNames_loop_distinct:
  "distinct pkgNames \<Longrightarrow> set names \<inter> set pkgNames = {} \<Longrightarrow>
     \<exists>result. getAvailableWorkspacePkgNames_loop X ignored pkgNames names = Inr result"
proof (induction pkgNames arbitrary: names)
  case Nil
  then show ?case by simp
next
  case (Cons pkgName rest)
  let ?names' = "if \<not> isMatch X pkgName ignored then set_add pkgName names else names"
  have "set ?names' \<inter> set rest = {}"
    using Cons.prems by (auto simp: set_set_add)
  moreover have "distinct rest" using Cons.prems by simp
  ultimately obtain result where
    "getAvailableWorkspacePkgNames_loop X ignored rest ?names' = Inr result"
    using Cons.IH by blast
  moreover have "pkgName \<notin> set names" using Cons.prems by auto
  ultimately show ?case by simp
qed

lemma duplicate_check_unreachable:
  assumes "mapWorkspaces X (cwd c) (getListedWorkspaces c) = Inr maps"
  shows "\<exists>c'. setWorkspaces_discovery X c = Inr c'"
proof -
  obtain byName byPkgName where maps: "maps = (byName, byPkgName)" by (cases maps)
  let ?c0 = "c\<lparr>ignoredWorkspacePatterns := getIgnoredWorkspacePatterns c\<rparr>"
  let ?c1 = "?c0\<lparr>workspacePackages := byName, workspacePackagesByName := byPkgName\<rparr>"
  let ?c2 = "addRootPackage X ?c1"
  have "distinct (map fst byPkgName)"
    using assms maps mapWorkspaces_distinct by blast
  then have "distinct (map fst (workspacePackagesByName ?c2))"
    by (intro addRootPackage_distinct) simp
  then obtain names where
    "getAvailableWorkspacePkgNames X ?c2 (map fst (workspacePackagesByName ?c2)) = Inr names"
    unfolding getAvailableWorkspacePkgNames_def
    using getAvailableWorkspacePkgNames_loop_distinct[of "map fst (workspacePackagesByName ?c2)" "[]"]
    by auto
  then show ?thesis
    using assms maps
    by (simp add: setWorkspaces_discovery_def getListedWorkspaces_def Let_def)
qed

text \<open>
  Claim C4 does not hold of the code: two workspaces whose manifests both declare the
  name \<^verbatim>\<open>dup\<close> are discovered without an error. The second overwrites the first
  in the map by package name, and the available package names are \<^verbatim>\<open>dup\<close> and
  \<^verbatim>\<open>root\<close>.
\<close>

theorem duplicate_package_name_accepted:
  "(case setWorkspaces_discovery (sample_Externals duplicate_files) (sample_chief False) of
      Inl e \<Rightarrow> None
    | Inr c \<Rightarrow> Some (map (\<lambda>entry. (fst entry, pkg_dir (snd entry))) (workspacePackagesByName c),
                      availableWorkspacePkgNames c))
   = Some ([(''dup'', ''/r/packages/b''), (''root'', ''/r'')], [''dup'', ''root''])"
  by (simp add: setWorkspaces_discovery_def getIgnoredWorkspacePatterns_def
        getListedWorkspaces_def mapWorkspaces_def partition_by_def startsWith_def
        addRootPackage_def getAvailableWorkspacePkgNames_def set_add_def
        sample_Externals_def sample_chief_def sample_root_manifest_def duplicate_files_def
        sample_require_def sample_join_def Let_def)

end
